theory Spec2Isabelle
  imports Complex_Main "HOL-Library.AList" "HOL-Library.Sublist"
begin

section \<open>JavaScript values\<close>

text \<open>
  The values that reach the Embed tool's configuration and resolution code
  (\<^verbatim>\<open>src/index.js\<close>). A number is a finite value or one of the three non-finite
  doubles. A regular expression is its pattern text and its \<^verbatim>\<open>exec\<close> function: on a
  string it answers \<^verbatim>\<open>null\<close> (\<open>None\<close>) or the match array, whose element 0 is the whole
  match and whose other elements are the capture groups, \<open>None\<close> for a group that took
  no part in the match. Regular expressions are taken without the \<^verbatim>\<open>g\<close> and \<^verbatim>\<open>y\<close>
  flags, so that \<^verbatim>\<open>exec\<close> keeps no position between calls. A function value is an
  \<^verbatim>\<open>id\<close> function of a service: it receives the array of capture groups, and the model
  keeps the string form of what it returns, which is what \<^verbatim>\<open>String.prototype.replace\<close>
  uses, or \<open>None\<close> when the call throws. An object is the list of its own enumerable properties in enumeration order.
\<close>

datatype jsnum = Finite rat | NaN | PosInfinity | NegInfinity

type_synonym capture = "string option"

datatype regexp = RegExp (rx_source: string) (rx_exec: "string \<Rightarrow> capture list option")

datatype jsval =
    JUndefined
  | JNull
  | JBool bool
  | JNum jsnum
  | JStr string
  | JRegExp regexp
  | JFunc "capture list \<Rightarrow> string option"
  | JObj "(string \<times> jsval) list"

type_synonym props = "(string \<times> jsval) list"

text \<open>
  The exceptions of the program: the engine's \<^verbatim>\<open>TypeError\<close>, the \<^verbatim>\<open>Error\<close> that
  the \<^verbatim>\<open>data\<close> setter throws with a message, and whatever an \<^verbatim>\<open>id\<close> function of a
  service throws.
\<close>

datatype error = TypeError | Error string | Thrown

fun typeof :: "jsval \<Rightarrow> string" where
  "typeof JUndefined = ''undefined''"
| "typeof JNull = ''object''"
| "typeof (JBool b) = ''boolean''"
| "typeof (JNum n) = ''number''"
| "typeof (JStr s) = ''string''"
| "typeof (JRegExp r) = ''object''"
| "typeof (JFunc f) = ''function''"
| "typeof (JObj ps) = ''object''"

fun truthy :: "jsval \<Rightarrow> bool" where
  "truthy JUndefined = False"
| "truthy JNull = False"
| "truthy (JBool b) = b"
| "truthy (JNum (Finite q)) = (q \<noteq> 0)"
| "truthy (JNum NaN) = False"
| "truthy (JNum PosInfinity) = True"
| "truthy (JNum NegInfinity) = True"
| "truthy (JStr s) = (s \<noteq> [])"
| "truthy (JRegExp r) = True"
| "truthy (JFunc f) = True"
| "truthy (JObj ps) = True"

text \<open>\<^verbatim>\<open>a && b\<close> and \<^verbatim>\<open>a || b\<close> answer one of their operands, not a boolean.\<close>

definition js_and :: "jsval \<Rightarrow> jsval \<Rightarrow> jsval" where
  "js_and a b = (if truthy a then b else a)"


fun nullish :: "jsval \<Rightarrow> bool" where
  "nullish JUndefined = True"
| "nullish JNull = True"
| "nullish _ = False"

fun instanceof_RegExp :: "jsval \<Rightarrow> bool" where
  "instanceof_RegExp (JRegExp r) = True"
| "instanceof_RegExp _ = False"

fun instanceof_Function :: "jsval \<Rightarrow> bool" where
  "instanceof_Function (JFunc f) = True"
| "instanceof_Function _ = False"


fun isFinite :: "jsval \<Rightarrow> bool" where
  "isFinite (JNum (Finite q)) = True"
| "isFinite _ = False"

text \<open>
  Reading a property of a value that is neither \<^verbatim>\<open>null\<close> nor \<^verbatim>\<open>undefined\<close>, for the
  property names this program reads (\<^verbatim>\<open>regex\<close>, \<^verbatim>\<open>embedUrl\<close>, \<^verbatim>\<open>html\<close>, \<^verbatim>\<open>height\<close>,
  \<^verbatim>\<open>width\<close>, \<^verbatim>\<open>id\<close>, \<^verbatim>\<open>services\<close>, \<^verbatim>\<open>service\<close>, \<^verbatim>\<open>source\<close>, \<^verbatim>\<open>embed\<close>,
  \<^verbatim>\<open>caption\<close>): an object answers its own property, a regular expression has
  \<^verbatim>\<open>source\<close>, and everything else is \<^verbatim>\<open>undefined\<close>. A property list that binds a name
  twice is read at the first binding.
\<close>

fun get :: "jsval \<Rightarrow> string \<Rightarrow> jsval" where
  "get (JObj ps) k = (case map_of ps k of None \<Rightarrow> JUndefined | Some v \<Rightarrow> v)"
| "get (JRegExp r) k = (if k = ''source'' then JStr (rx_source r) else JUndefined)"
| "get _ k = JUndefined"

text \<open>
  The names every object created by \<^verbatim>\<open>{}\<close> inherits from \<^verbatim>\<open>Object.prototype\<close>: the
  \<^verbatim>\<open>in\<close> operator answers true for them on any such object.
\<close>

definition object_prototype_names :: "string list" where
  "object_prototype_names =
     [''constructor'', ''__defineGetter__'', ''__defineSetter__'', ''hasOwnProperty'',
      ''__lookupGetter__'', ''__lookupSetter__'', ''isPrototypeOf'',
      ''propertyIsEnumerable'', ''toString'', ''valueOf'', ''__proto__'',
      ''toLocaleString'']"

definition has_property :: "(string \<times> 'a) list \<Rightarrow> string \<Rightarrow> bool" where
  "has_property obj key = (key \<in> fst ` set obj \<or> key \<in> set object_prototype_names)"

text \<open>
  \<^verbatim>\<open>Object.assign(target, source)\<close>: for each own enumerable name of the source, in
  order, \<^verbatim>\<open>target[name] = source[name]\<close>.
\<close>

definition assign_from :: "props \<Rightarrow> props \<Rightarrow> props" where
  "assign_from target src =
     foldl (\<lambda>t name. AList.update name (get (JObj src) name) t) target (map fst src)"

definition object_assign :: "props \<Rightarrow> props list \<Rightarrow> props" where
  "object_assign target sources = foldl assign_from target sources"

text \<open>
  A property list stands for an ordinary object when no name is bound twice and
  \<^verbatim>\<open>__proto__\<close> is not among the own names (on an ordinary object that name is the
  prototype accessor, and writing it does not create a property, which the property
  lists do not model).
\<close>

definition wf_object :: "(string \<times> 'a) list \<Rightarrow> bool" where
  "wf_object ps = (distinct (map fst ps) \<and> ''__proto__'' \<notin> fst ` set ps)"

section \<open>checkServiceConfig\<close>

text \<open>
  \<^verbatim>\<open>static checkServiceConfig(config)\<close>, lines 331-343. Destructuring \<^verbatim>\<open>null\<close> or
  \<^verbatim>\<open>undefined\<close> throws a TypeError. The chain of \<^verbatim>\<open>&&\<close> answers its first falsy
  operand, so the result is a value, not always a boolean.
\<close>

definition checkServiceConfig :: "jsval \<Rightarrow> error + jsval" where
  "checkServiceConfig config =
     (if nullish config then Inl TypeError
      else
        let regex = get config ''regex'';
            embedUrl = get config ''embedUrl'';
            html = get config ''html'';
            height = get config ''height'';
            width = get config ''width'';
            id = get config ''id'';
            isValid =
              js_and (js_and (js_and (js_and (js_and regex (JBool (instanceof_RegExp regex)))
                embedUrl) (JBool (typeof embedUrl = ''string'')))
                html) (JBool (typeof html = ''string''));
            isValid = js_and isValid
              (if id \<noteq> JUndefined then JBool (instanceof_Function id) else JBool True);
            isValid = js_and isValid
              (if height \<noteq> JUndefined then JBool (isFinite height) else JBool True);
            isValid = js_and isValid
              (if width \<noteq> JUndefined then JBool (isFinite width) else JBool True)
        in Inr isValid)"

section \<open>prepare\<close>

text \<open>
  \<^verbatim>\<open>static prepare({config = {}})\<close>, lines 271-323. \<^verbatim>\<open>SERVICES\<close>, the table of
  built-in services imported from \<^verbatim>\<open>./services\<close>, is a parameter: an object whose
  values are service objects. The result is the pair of static properties
  \<^verbatim>\<open>Embed.services\<close> and \<^verbatim>\<open>Embed.patterns\<close>.
\<close>

record embed_static =
  Embed_services :: "(string \<times> props) list"
  Embed_patterns :: props

fun decimal :: "nat \<Rightarrow> string" where
  "decimal n =
     (if n < 10 then [char_of (48 + n)] else decimal (n div 10) @ [char_of (48 + n mod 10)])"

text \<open>
  \<^verbatim>\<open>Object.entries(v)\<close>: a TypeError on \<^verbatim>\<open>null\<close> and \<^verbatim>\<open>undefined\<close>, the own
  properties of an object, the indexed characters of a string, and nothing for the other
  values.
\<close>

fun object_entries :: "jsval \<Rightarrow> error + props" where
  "object_entries JUndefined = Inl TypeError"
| "object_entries JNull = Inl TypeError"
| "object_entries (JObj ps) = Inr ps"
| "object_entries (JStr s) = Inr (zip (map decimal [0..<length s]) (map (\<lambda>c. JStr [c]) s))"
| "object_entries _ = Inr []"

definition enabledServices :: "props \<Rightarrow> string list" where
  "enabledServices entries =
     map fst (filter (\<lambda>(key, value). typeof value = ''boolean'' \<and> value = JBool True) entries)"

text \<open>
  \<^verbatim>\<open>.filter(([key, service]) => Embed.checkServiceConfig(service))\<close>: an entry is kept
  when the answer is truthy; an exception of the check ends the whole filter.
\<close>

fun filter_checked :: "props \<Rightarrow> error + props" where
  "filter_checked [] = Inr []"
| "filter_checked ((key, service) # rest) =
     (case checkServiceConfig service of
        Inl e \<Rightarrow> Inl e
      | Inr isValid \<Rightarrow>
          (case filter_checked rest of
             Inl e \<Rightarrow> Inl e
           | Inr kept \<Rightarrow> Inr (if truthy isValid then (key, service) # kept else kept)))"

definition project_service :: "jsval \<Rightarrow> props" where
  "project_service service =
     [(''regex'', get service ''regex''),
      (''embedUrl'', get service ''embedUrl''),
      (''html'', get service ''html''),
      (''height'', get service ''height''),
      (''width'', get service ''width''),
      (''id'', get service ''id'')]"

definition userServices :: "props \<Rightarrow> error + (string \<times> props) list" where
  "userServices entries =
     (case filter_checked (filter (\<lambda>(key, value). typeof value = ''object'') entries) of
        Inl e \<Rightarrow> Inl e
      | Inr valid \<Rightarrow> Inr (map (\<lambda>(key, service). (key, project_service service)) valid))"

text \<open>
  The entries of \<^verbatim>\<open>SERVICES\<close> that stay: all of them when nothing is enabled, the
  enabled ones otherwise (lines 301-303).
\<close>

definition base_entries :: "(string \<times> props) list \<Rightarrow> props \<Rightarrow> (string \<times> props) list" where
  "base_entries SERVICES entries =
     (if enabledServices entries \<noteq> []
      then filter (\<lambda>(key, service). key \<in> set (enabledServices entries)) SERVICES
      else SERVICES)"

text \<open>
  The callback of the first \<^verbatim>\<open>reduce\<close> (lines 307-315). The accumulator starts as
  \<^verbatim>\<open>{}\<close>, so \<^verbatim>\<open>key in result\<close> also holds for an inherited name; the value read
  under such a name has no own enumerable property.
\<close>

definition merge_entry :: "(string \<times> props) list \<Rightarrow> string \<times> props \<Rightarrow> (string \<times> props) list" where
  "merge_entry result = (\<lambda>(key, service).
     if \<not> has_property result key then AList.update key service result
     else AList.update key
            (object_assign [] [case map_of result key of None \<Rightarrow> [] | Some old \<Rightarrow> old, service])
            result)"

definition pattern_entry :: "props \<Rightarrow> string \<times> props \<Rightarrow> props" where
  "pattern_entry result = (\<lambda>(key, item). AList.update key (get (JObj item) ''regex'') result)"

definition prepare_services :: "(string \<times> props) list \<Rightarrow> props \<Rightarrow> error + embed_static" where
  "prepare_services SERVICES entries =
     (case userServices entries of
        Inl e \<Rightarrow> Inl e
      | Inr custom \<Rightarrow>
          let entries' = base_entries SERVICES entries @ custom
          in Inr \<lparr>Embed_services = foldl merge_entry [] entries',
                  Embed_patterns = foldl pattern_entry [] entries'\<rparr>)"

definition prepare :: "(string \<times> props) list \<Rightarrow> jsval \<Rightarrow> error + embed_static" where
  "prepare SERVICES arg =
     (if nullish arg then Inl TypeError
      else
        let config = (if get arg ''config'' = JUndefined then JObj [] else get arg ''config'')
        in if nullish config then Inl TypeError
           else
             let services =
                   (if get config ''services'' = JUndefined then JObj []
                    else get config ''services'')
             in (case object_entries services of
                   Inl e \<Rightarrow> Inl e
                 | Inr entries \<Rightarrow> prepare_services SERVICES entries))"

text \<open>\<^verbatim>\<open>static get pasteConfig()\<close>, lines 348-352.\<close>

definition pasteConfig :: "embed_static \<Rightarrow> props" where
  "pasteConfig static = [(''patterns'', JObj (Embed_patterns static))]"

section \<open>The block: getter, setter, render and performServices\<close>









text \<open>
  \<^verbatim>\<open>GetSubstitution\<close> of the language standard, for a pattern without capture
  groups: in the replacement text \<^verbatim>\<open>$$\<close> is a dollar sign, \<^verbatim>\<open>$&\<close> the matched text,
  \<^verbatim>\<open>$`\<close> the text before the match and \<^verbatim>\<open>$'\<close> the text after it; any other
  character stands for itself.
\<close>

fun get_substitution :: "string \<Rightarrow> string \<Rightarrow> string \<Rightarrow> string \<Rightarrow> string" where
  "get_substitution matched preceding following [] = []"
| "get_substitution matched preceding following [c] = [c]"
| "get_substitution matched preceding following (c # d # r) =
     (if c = CHR ''$'' \<and> d = CHR ''$'' then CHR ''$'' # get_substitution matched preceding following r
      else if c = CHR ''$'' \<and> d = CHR ''&'' then matched @ get_substitution matched preceding following r
      else if c = CHR ''$'' \<and> d = CHR 0x60 then preceding @ get_substitution matched preceding following r
      else if c = CHR ''$'' \<and> d = CHR 0x27 then following @ get_substitution matched preceding following r
      else c # get_substitution matched preceding following (d # r))"

text \<open>The text that \<^verbatim>\<open>/<\%\= remote\_id \%\>/g\<close> matches: the escapes stand for themselves.\<close>

definition remote_id_token :: string where
  "remote_id_token = ''<%= remote_id %>''"

text \<open>
  \<^verbatim>\<open>embedUrl.replace(/<\%\= remote\_id \%\>/g, replacement)\<close>: the occurrences of the
  token are found from left to right without overlap, and each is replaced by the
  substitution computed from the replacement text. The second argument is the part of
  the whole string already passed.
\<close>

function replace_remote_id_from :: "string \<Rightarrow> string \<Rightarrow> string \<Rightarrow> string" where
  "replace_remote_id_from replacement preceding [] = []"
| "replace_remote_id_from replacement preceding (c # cs) =
     (if prefix remote_id_token (c # cs)
      then get_substitution remote_id_token preceding
             (drop (length remote_id_token) (c # cs)) replacement
           @ replace_remote_id_from replacement (preceding @ remote_id_token)
               (drop (length remote_id_token) (c # cs))
      else c # replace_remote_id_from replacement (preceding @ [c]) cs)"
  by pat_completeness auto
termination
  by (relation "measure (\<lambda>(replacement, preceding, s). length s)")
     (auto simp: remote_id_token_def)

definition replace_remote_id :: "string \<Rightarrow> string \<Rightarrow> string" where
  "replace_remote_id embedUrl replacement = replace_remote_id_from replacement [] embedUrl"

text \<open>
  The default \<^verbatim>\<open>id\<close> function, \<^verbatim>\<open>(ids) => ids.shift()\<close>, in its string form: the
  first capture group, and \<^verbatim>\<open>undefined\<close> when there is none or it took no part.
\<close>

fun default_id :: "capture list \<Rightarrow> string" where
  "default_id [] = ''undefined''"
| "default_id (None # ids) = ''undefined''"
| "default_id (Some s # ids) = s"

text \<open>
  The call \<^verbatim>\<open>id(result)\<close>: the default function when the entry has no \<^verbatim>\<open>id\<close>, a
  TypeError when \<^verbatim>\<open>id\<close> is not callable.
\<close>

definition call_id :: "jsval \<Rightarrow> capture list \<Rightarrow> error + string" where
  "call_id callee result =
     (case callee of
        JUndefined \<Rightarrow> Inr (default_id result)
      | JFunc f \<Rightarrow> (case f result of None \<Rightarrow> Inl Thrown | Some s \<Rightarrow> Inr s)
      | _ \<Rightarrow> Inl TypeError)"

text \<open>
  Lines 251-263 of \<^verbatim>\<open>performServices\<close>: the object that is assigned to
  \<^verbatim>\<open>this.data\<close>. A key that the registry does not own reads \<^verbatim>\<open>undefined\<close> or an
  inherited built-in without a \<^verbatim>\<open>regex\<close>, and the call of \<^verbatim>\<open>exec\<close> on
  \<^verbatim>\<open>undefined\<close>, like the destructuring of \<^verbatim>\<open>undefined\<close>, is a TypeError. Only a
  regular expression has \<^verbatim>\<open>exec\<close>, only a string has \<^verbatim>\<open>replace\<close>, and \<^verbatim>\<open>slice(1)\<close>
  of \<^verbatim>\<open>null\<close> is a TypeError. In \<^verbatim>\<open>embedUrl.replace(..., id(result))\<close> the property
  \<^verbatim>\<open>replace\<close> is read first (a TypeError on \<^verbatim>\<open>null\<close> and \<^verbatim>\<open>undefined\<close>), then
  \<^verbatim>\<open>id\<close> is called, then \<^verbatim>\<open>replace\<close>.
\<close>

definition resolve :: "(string \<times> props) list \<Rightarrow> string \<Rightarrow> string \<Rightarrow> error + props" where
  "resolve registry service url =
     (case map_of registry service of
        None \<Rightarrow> Inl TypeError
      | Some rule \<Rightarrow>
          let regex = get (JObj rule) ''regex'';
              embedUrl = get (JObj rule) ''embedUrl'';
              width = get (JObj rule) ''width'';
              height = get (JObj rule) ''height'';
              id = get (JObj rule) ''id''
          in (case regex of
                JRegExp rx \<Rightarrow>
                  (case rx_exec rx url of
                     None \<Rightarrow> Inl TypeError
                   | Some m \<Rightarrow>
                       let result = drop 1 m
                       in if nullish embedUrl then Inl TypeError
                          else
                            (case call_id id result of
                               Inl e \<Rightarrow> Inl e
                             | Inr rid \<Rightarrow>
                                 (case embedUrl of
                                    JStr template \<Rightarrow>
                                      Inr [(''service'', JStr service), (''source'', JStr url),
                                           (''embed'', JStr (replace_remote_id template rid)),
                                           (''width'', width), (''height'', height)]
                                  | _ \<Rightarrow> Inl TypeError)))
              | _ \<Rightarrow> Inl TypeError))"


section \<open>Notions used in the statements\<close>

text \<open>
  The argument that the editor passes to \<^verbatim>\<open>prepare\<close> for a user configuration whose
  \<^verbatim>\<open>services\<close> object has the given entries.
\<close>

definition tool_argument :: "props \<Rightarrow> jsval" where
  "tool_argument entries = JObj [(''config'', JObj [(''services'', JObj entries)])]"

text \<open>
  A table of services is well formed when it is an ordinary object whose values are
  ordinary objects.
\<close>

definition wf_registry :: "(string \<times> props) list \<Rightarrow> bool" where
  "wf_registry registry = (wf_object registry \<and> (\<forall>(key, rule) \<in> set registry. wf_object rule))"

text \<open>A service object passes the check when the check answers a truthy value.\<close>

definition passes_check :: "jsval \<Rightarrow> bool" where
  "passes_check service =
     (case checkServiceConfig service of Inl e \<Rightarrow> False | Inr isValid \<Rightarrow> truthy isValid)"

text \<open>
  The conditions that the specification lists for a valid rule, on a value that can be
  destructured: a property is present when it is not \<^verbatim>\<open>undefined\<close>.
\<close>

definition valid_rule :: "jsval \<Rightarrow> bool" where
  "valid_rule r =
     (instanceof_RegExp (get r ''regex'')
      \<and> (\<exists>s. get r ''embedUrl'' = JStr s \<and> s \<noteq> [])
      \<and> (\<exists>s. get r ''html'' = JStr s \<and> s \<noteq> [])
      \<and> (get r ''id'' = JUndefined \<or> instanceof_Function (get r ''id''))
      \<and> (get r ''height'' = JUndefined \<or> isFinite (get r ''height''))
      \<and> (get r ''width'' = JUndefined \<or> isFinite (get r ''width'')))"

definition service_fields :: "string list" where
  "service_fields = [''regex'', ''embedUrl'', ''html'', ''height'', ''width'', ''id'']"


text \<open>
  Substitution as the specification words it: every occurrence of the token, from left
  to right, is replaced by the given text as it stands.
\<close>

function substitute_all :: "string \<Rightarrow> string \<Rightarrow> string \<Rightarrow> string" where
  "substitute_all token text [] = []"
| "substitute_all token text (c # cs) =
     (if token \<noteq> [] \<and> prefix token (c # cs)
      then text @ substitute_all token text (drop (length token) (c # cs))
      else c # substitute_all token text cs)"
  by pat_completeness auto
termination
  by (relation "measure (\<lambda>(token, text, s). length s)") auto

text \<open>
  The regular expression \<^verbatim>\<open>/id=(\w+)/\<close> of the specification's example: the leftmost
  \<^verbatim>\<open>id=\<close> that is followed by a word character, with the longest run of word
  characters as its capture group.
\<close>

definition is_word_char :: "char \<Rightarrow> bool" where
  "is_word_char c =
     (let n = (of_char c :: nat)
      in (48 \<le> n \<and> n \<le> 57) \<or> (65 \<le> n \<and> n \<le> 90) \<or> (97 \<le> n \<and> n \<le> 122) \<or> n = 95)"

fun exec_id_word :: "string \<Rightarrow> capture list option" where
  "exec_id_word [] = None"
| "exec_id_word (c # cs) =
     (if prefix ''id='' (c # cs) \<and> takeWhile is_word_char (drop 3 (c # cs)) \<noteq> []
      then Some [Some (''id='' @ takeWhile is_word_char (drop 3 (c # cs))),
                 Some (takeWhile is_word_char (drop 3 (c # cs)))]
      else exec_id_word cs)"

definition id_word_regexp :: regexp where
  "id_word_regexp = RegExp (''id=('' @ [CHR 0x5C] @ ''w+)'') exec_id_word"

text \<open>
  The custom services of a configuration without \<^verbatim>\<open>null\<close> entries: the entries of
  type object that pass the check, each projected to the six fields of a service.
\<close>

definition custom_services :: "props \<Rightarrow> (string \<times> props) list" where
  "custom_services entries =
     map (\<lambda>(key, service). (key, project_service service))
       (filter (\<lambda>(key, service). passes_check service)
          (filter (\<lambda>(key, value). typeof value = ''object'') entries))"

section \<open>Example inputs\<close>

text \<open>
  A built-in table with two services that carry a size, a custom service without a
  size, the same with a field that no service has, the rule of the specification's
  example with its template as printed there, a rule whose \<^verbatim>\<open>id\<close> function answers
  the text \<^verbatim>\<open>$&\<close>, a rule whose \<^verbatim>\<open>id\<close> function throws, a rule without
  \<^verbatim>\<open>embedUrl\<close>, a block that holds a resolved
  embed and has not been rendered, a block whose link view has been rendered and not
  yet put under a parent, and a document in which every frame is an element.
\<close>

definition example_rule :: props where
  "example_rule =
     [(''regex'', JRegExp id_word_regexp),
      (''embedUrl'', JStr ''https://x/<%= remote_id %>''),
      (''html'', JStr ''<iframe></iframe>''),
      (''height'', JNum (Finite 320)),
      (''width'', JNum (Finite 580))]"

definition example_SERVICES :: "(string \<times> props) list" where
  "example_SERVICES = [(''A'', example_rule), (''B'', example_rule)]"

definition example_custom :: props where
  "example_custom =
     [(''regex'', JRegExp id_word_regexp),
      (''embedUrl'', JStr ''https://y/<%= remote_id %>''),
      (''html'', JStr ''<iframe></iframe>'')]"

definition spec_example_rule :: props where
  "spec_example_rule =
     [(''regex'', JRegExp id_word_regexp),
      (''embedUrl'', JStr ''https://x/<id>''),
      (''html'', JStr ''<iframe></iframe>'')]"







definition example_custom_extra :: props where
  "example_custom_extra = example_custom @ [(''extra'', JStr ''user'')]"

definition dollar_rule :: props where
  "dollar_rule =
     [(''regex'', JRegExp id_word_regexp),
      (''embedUrl'', JStr ''https://x/<%= remote_id %>''),
      (''html'', JStr ''<iframe></iframe>''),
      (''id'', JFunc (\<lambda>ids. Some ''$&''))]"

section \<open>The validator\<close>

lemma js_and_eq_True: "js_and a b = JBool True \<longleftrightarrow> truthy a \<and> b = JBool True"
  by (auto simp: js_and_def)

lemma truthy_js_and: "truthy (js_and a b) \<longleftrightarrow> truthy a \<and> truthy b"
  by (simp add: js_and_def)

lemma truthy_string_iff: "truthy v \<and> typeof v = ''string'' \<longleftrightarrow> (\<exists>s. v = JStr s \<and> s \<noteq> [])"
  by (cases v) auto

lemma instanceof_RegExp_truthy: "instanceof_RegExp v \<Longrightarrow> truthy v"
  by (cases v) auto

lemma JBool_if_eq_True: "(if c then JBool b else JBool True) = JBool True \<longleftrightarrow> (\<not> c \<or> b)"
  by simp

lemma truthy_JBool_if: "truthy (if c then JBool b else JBool True) \<longleftrightarrow> (\<not> c \<or> b)"
  by simp

lemma truthy_checked_iff:
  "\<not> nullish r \<Longrightarrow> passes_check r \<longleftrightarrow> valid_rule r"
  unfolding passes_check_def checkServiceConfig_def valid_rule_def Let_def
  using truthy_string_iff [of "get r ''embedUrl''"] truthy_string_iff [of "get r ''html''"]
    instanceof_RegExp_truthy [of "get r ''regex''"]
  by (simp add: truthy_js_and truthy_JBool_if del: One_nat_def) blast

lemma checkServiceConfig_true_iff:
  "checkServiceConfig r = Inr (JBool True) \<longleftrightarrow> \<not> nullish r \<and> valid_rule r"
  unfolding checkServiceConfig_def valid_rule_def Let_def
  using truthy_string_iff [of "get r ''embedUrl''"] truthy_string_iff [of "get r ''html''"]
    instanceof_RegExp_truthy [of "get r ''regex''"]
  by (simp add: js_and_eq_True truthy_js_and JBool_if_eq_True) blast

lemma checkServiceConfig_object: "\<not> nullish r \<Longrightarrow> \<exists>v. checkServiceConfig r = Inr v"
  by (simp add: checkServiceConfig_def Let_def)

lemma checkServiceConfig_nullish: "nullish r \<Longrightarrow> checkServiceConfig r = Inl TypeError"
  by (simp add: checkServiceConfig_def)

lemma passes_check_true: "passes_check r \<longleftrightarrow> checkServiceConfig r = Inr (JBool True)"
  by (cases "nullish r") (simp_all add: truthy_checked_iff checkServiceConfig_true_iff, simp add: passes_check_def checkServiceConfig_def)

section \<open>Property lists and the two folds\<close>

lemma update_append_fresh: "k \<notin> fst ` set t \<Longrightarrow> AList.update k v t = t @ [(k, v)]"
  by (induction t) auto

lemma foldl_update_lookup:
  "\<forall>n \<in> set ks. map_of src n = Some (g n) \<Longrightarrow>
   map_of (foldl (\<lambda>t n. AList.update n (g n) t) t ks) k =
     (if k \<in> set ks then map_of src k else map_of t k)"
proof (induction ks arbitrary: t)
  case Nil
  then show ?case by simp
next
  case (Cons n ks)
  then show ?case by (simp add: update_conv')
qed

lemma map_of_assign_from: "map_of (assign_from t src) = map_of t ++ map_of src"
proof
  fix k
  have bound: "\<forall>n \<in> set (map fst src). map_of src n = Some (get (JObj src) n)"
  proof
    fix n assume "n \<in> set (map fst src)"
    then obtain v where "map_of src n = Some v"
      by (cases "map_of src n") (auto simp: map_of_eq_None_iff)
    then show "map_of src n = Some (get (JObj src) n)" by simp
  qed
  have "map_of (assign_from t src) k =
          (if k \<in> set (map fst src) then map_of src k else map_of t k)"
    unfolding assign_from_def by (rule foldl_update_lookup [OF bound])
  also have "\<dots> = (map_of t ++ map_of src) k"
  proof (cases "map_of src k")
    case None
    moreover from None have "k \<notin> fst ` set src" by (simp add: map_of_eq_None_iff)
    ultimately show ?thesis by (simp add: map_add_def)
  next
    case (Some v)
    then have "k \<in> set (map fst src)"
      by (metis map_of_eq_None_iff option.distinct(1) set_map)
    with Some show ?thesis by (simp add: map_add_def)
  qed
  finally show "map_of (assign_from t src) k = (map_of t ++ map_of src) k" .
qed

lemma map_of_object_assign2:
  "map_of (object_assign [] [a, b]) = map_of a ++ map_of b"
  by (simp add: object_assign_def map_of_assign_from)

lemma foldl_update_fresh:
  "distinct ks \<Longrightarrow> set ks \<inter> fst ` set t = {} \<Longrightarrow>
   foldl (\<lambda>t n. AList.update n (g n) t) t ks = t @ map (\<lambda>n. (n, g n)) ks"
proof (induction ks arbitrary: t)
  case Nil
  then show ?case by simp
next
  case (Cons n ks)
  have fresh: "n \<notin> fst ` set t" using Cons.prems by auto
  have "set ks \<inter> fst ` set (t @ [(n, g n)]) = {}" using Cons.prems by auto
  with Cons show ?case
    by (simp add: update_append_fresh [OF fresh])
qed

lemma assign_from_empty: "distinct (map fst d) \<Longrightarrow> assign_from [] d = d"
proof -
  assume d: "distinct (map fst d)"
  have "map ((\<lambda>n. (n, get (JObj d) n)) \<circ> fst) d = d"
    using d by (intro map_idI) auto
  then have "map (\<lambda>n. (n, get (JObj d) n)) (map fst d) = d"
    by simp
  then show ?thesis
    unfolding assign_from_def using d by (simp add: foldl_update_fresh)
qed

lemma object_assign_copy: "distinct (map fst d) \<Longrightarrow> object_assign [] [[], d] = d"
  by (simp add: object_assign_def assign_from_empty assign_from_def [of "[]" "[]"])

lemma merge_entry_fresh:
  "key \<notin> fst ` set acc \<Longrightarrow> distinct (map fst d) \<Longrightarrow> merge_entry acc (key, d) = acc @ [(key, d)]"
proof -
  assume fresh: "key \<notin> fst ` set acc" and d: "distinct (map fst d)"
  from fresh have "map_of acc key = None" by (simp add: map_of_eq_None_iff)
  with fresh d show ?thesis
    by (simp add: merge_entry_def update_append_fresh object_assign_copy)
qed

lemma foldl_merge_entry_fresh:
  "distinct (map fst es) \<Longrightarrow> fst ` set es \<inter> fst ` set acc = {} \<Longrightarrow>
   \<forall>(key, d) \<in> set es. distinct (map fst d) \<Longrightarrow>
   foldl merge_entry acc es = acc @ es"
proof (induction es arbitrary: acc)
  case Nil
  then show ?case by simp
next
  case (Cons e es)
  obtain key d where e: "e = (key, d)" by (cases e)
  have step: "merge_entry acc (key, d) = acc @ [(key, d)]"
    using Cons.prems e by (intro merge_entry_fresh) auto
  have "fst ` set es \<inter> fst ` set (acc @ [(key, d)]) = {}"
    using Cons.prems e by auto
  with Cons.prems e show ?case
    by (simp add: step Cons.IH)
qed

lemma keys_merge_entry:
  "fst ` set (merge_entry acc (key, s)) = insert key (fst ` set acc)"
  by (simp add: merge_entry_def dom_update)

lemma map_of_merge_entry_other:
  "k \<noteq> key \<Longrightarrow> map_of (merge_entry acc (key, s)) k = map_of acc k"
  by (simp add: merge_entry_def update_conv')

lemma map_of_merge_entry_same:
  "map_of (merge_entry acc (key, s)) key =
     Some (if has_property acc key
           then object_assign [] [case map_of acc key of None \<Rightarrow> [] | Some old \<Rightarrow> old, s]
           else s)"
  by (simp add: merge_entry_def update_conv')

lemma has_property_merge_entry_other:
  "k \<noteq> key \<Longrightarrow> has_property (merge_entry acc (key, s)) k = has_property acc k"
  by (simp add: has_property_def keys_merge_entry)

lemma foldl_merge_entry_untouched:
  "key \<notin> fst ` set es \<Longrightarrow> map_of (foldl merge_entry acc es) key = map_of acc key"
proof (induction es arbitrary: acc)
  case Nil
  then show ?case by simp
next
  case (Cons e es)
  obtain k s where e: "e = (k, s)" by (cases e)
  with Cons show ?case by (simp add: map_of_merge_entry_other)
qed

lemma keys_foldl_merge_entry:
  "fst ` set (foldl merge_entry acc es) = fst ` set acc \<union> fst ` set es"
proof (induction es arbitrary: acc)
  case Nil
  then show ?case by simp
next
  case (Cons e es)
  obtain k s where e: "e = (k, s)" by (cases e)
  show ?case by (simp add: Cons.IH e keys_merge_entry)
qed

lemma foldl_merge_entry_custom:
  "distinct (map fst es) \<Longrightarrow> map_of es key = Some u \<Longrightarrow>
   map_of (foldl merge_entry acc es) key =
     Some (if has_property acc key
           then object_assign [] [case map_of acc key of None \<Rightarrow> [] | Some old \<Rightarrow> old, u]
           else u)"
proof (induction es arbitrary: acc)
  case Nil
  then show ?case by simp
next
  case (Cons e es)
  obtain k s where e: "e = (k, s)" by (cases e)
  show ?case
  proof (cases "k = key")
    case True
    with Cons.prems e have "key \<notin> fst ` set es" and "u = s" by auto
    then show ?thesis
      using e True by (simp add: foldl_merge_entry_untouched map_of_merge_entry_same)
  next
    case False
    with Cons.prems e have "distinct (map fst es)" and "map_of es key = Some u" by auto
    from Cons.IH [OF this] show ?thesis
      using e False
      by (simp add: has_property_merge_entry_other map_of_merge_entry_other)
  qed
qed

section \<open>The filter of the custom services\<close>

lemma filter_checked_Inl: "filter_checked xs = Inl e \<Longrightarrow> e = TypeError"
proof (induction xs)
  case Nil
  then show ?case by simp
next
  case (Cons x xs)
  obtain key service where x: "x = (key, service)" by (cases x)
  show ?case
  proof (cases "nullish service")
    case True
    with Cons.prems x show ?thesis by (simp add: checkServiceConfig_nullish)
  next
    case False
    then obtain v where "checkServiceConfig service = Inr v"
      using checkServiceConfig_object by blast
    with Cons x show ?thesis by (auto split: sum.splits)
  qed
qed

lemma filter_checked_null:
  "(key, JNull) \<in> set xs \<Longrightarrow> filter_checked xs = Inl TypeError"
proof (induction xs)
  case Nil
  then show ?case by simp
next
  case (Cons x xs)
  obtain k service where x: "x = (k, service)" by (cases x)
  show ?case
  proof (cases "checkServiceConfig service")
    case (Inl e)
    then have "filter_checked (x # xs) = Inl e" using x by simp
    then show ?thesis using filter_checked_Inl by blast
  next
    case (Inr v)
    then have "service \<noteq> JNull" by (auto simp: checkServiceConfig_def)
    with Cons x have "filter_checked xs = Inl TypeError" by auto
    with Inr x show ?thesis by simp
  qed
qed

lemma filter_checked_Inr:
  "filter_checked xs = Inr kept \<Longrightarrow> kept = filter (\<lambda>(key, service). passes_check service) xs"
proof (induction xs arbitrary: kept)
  case Nil
  then show ?case by simp
next
  case (Cons x xs)
  obtain k service where x: "x = (k, service)" by (cases x)
  from Cons.prems x obtain v kept' where
    v: "checkServiceConfig service = Inr v" and kept': "filter_checked xs = Inr kept'"
    and kept: "kept = (if truthy v then (k, service) # kept' else kept')"
    by (auto split: sum.splits)
  from Cons.IH [OF kept'] v kept x show ?case
    by (simp add: passes_check_def)
qed

lemma filter_checked_total:
  "\<forall>(key, service) \<in> set xs. \<not> nullish service \<Longrightarrow> \<exists>kept. filter_checked xs = Inr kept"
proof (induction xs)
  case Nil
  then show ?case by simp
next
  case (Cons x xs)
  obtain k service where x: "x = (k, service)" by (cases x)
  with Cons.prems have "\<not> nullish service" by simp
  then obtain v where "checkServiceConfig service = Inr v"
    using checkServiceConfig_object by blast
  moreover from Cons obtain kept where "filter_checked xs = Inr kept" by auto
  ultimately show ?case using x by simp
qed

lemma userServices_Inr: "userServices entries = Inr custom \<Longrightarrow> custom = custom_services entries"
  by (auto simp: userServices_def custom_services_def split: sum.splits dest: filter_checked_Inr)

lemma userServices_Inl: "userServices entries = Inl e \<Longrightarrow> e = TypeError"
  by (auto simp: userServices_def split: sum.splits dest: filter_checked_Inl)

lemma userServices_null: "(key, JNull) \<in> set entries \<Longrightarrow> userServices entries = Inl TypeError"
proof -
  assume "(key, JNull) \<in> set entries"
  then have "(key, JNull) \<in> set (filter (\<lambda>(key, value). typeof value = ''object'') entries)"
    by simp
  then show ?thesis
    by (simp add: userServices_def filter_checked_null)
qed

lemma userServices_total:
  "JNull \<notin> snd ` set entries \<Longrightarrow> userServices entries = Inr (custom_services entries)"
proof -
  assume no_null: "JNull \<notin> snd ` set entries"
  have "\<forall>(key, service) \<in> set (filter (\<lambda>(key, value). typeof value = ''object'') entries).
          \<not> nullish service"
  proof (clarify)
    fix key service
    assume m: "(key, service) \<in> set (filter (\<lambda>(key, value). typeof value = ''object'') entries)"
      and n: "nullish service"
    from m have "typeof service = ''object''" and "(key, service) \<in> set entries" by auto
    with n have "service = JNull" by (cases service) auto
    with \<open>(key, service) \<in> set entries\<close> no_null show False by force
  qed
  then obtain kept where "filter_checked (filter (\<lambda>(key, value). typeof value = ''object'') entries) = Inr kept"
    using filter_checked_total by blast
  then have "userServices entries =
      Inr (map (\<lambda>(key, service). (key, project_service service)) kept)"
    by (simp add: userServices_def)
  then show ?thesis
    using userServices_Inr by simp
qed

lemma prepare_tool_argument:
  "prepare SERVICES (tool_argument entries) = prepare_services SERVICES entries"
  by (simp add: prepare_def tool_argument_def)


section \<open>The registry, the pattern table and the resolver\<close>

lemma map_of_filter_keys:
  "map_of (filter (\<lambda>(key, service). P key) xs) k = (if P k then map_of xs k else None)"
  by (induction xs) auto

lemma set_enabledServices:
  "set (enabledServices entries) = {key. (key, JBool True) \<in> set entries}"
  by (force simp: enabledServices_def)

lemma enabledServices_empty_iff:
  "enabledServices entries = [] \<longleftrightarrow> \<not> (\<exists>key. (key, JBool True) \<in> set entries)"
  using set_enabledServices [of entries] by (metis (mono_tags, lifting) Collect_empty_eq empty_iff mem_Collect_eq set_empty)

lemma base_entries_subset: "set (base_entries SERVICES entries) \<subseteq> set SERVICES"
  by (auto simp: base_entries_def)

lemma distinct_base_entries:
  "distinct (map fst SERVICES) \<Longrightarrow> distinct (map fst (base_entries SERVICES entries))"
  by (simp add: base_entries_def distinct_map_filter)

lemma map_of_base_entries:
  "map_of (base_entries SERVICES entries) key =
     (if (\<exists>k. (k, JBool True) \<in> set entries) \<and> (key, JBool True) \<notin> set entries then None
      else map_of SERVICES key)"
proof -
  have "map_of (base_entries SERVICES entries) key =
          (if enabledServices entries \<noteq> [] \<and> key \<notin> set (enabledServices entries) then None
           else map_of SERVICES key)"
    by (simp add: base_entries_def map_of_filter_keys)
  then show ?thesis
    by (simp add: set_enabledServices enabledServices_empty_iff)
qed

lemma foldl_merge_entry_base:
  assumes "wf_registry SERVICES"
  shows "foldl merge_entry [] (base_entries SERVICES entries) = base_entries SERVICES entries"
proof -
  have "distinct (map fst (base_entries SERVICES entries))"
    using assms by (simp add: wf_registry_def wf_object_def distinct_base_entries)
  moreover have "\<forall>(key, d) \<in> set (base_entries SERVICES entries). distinct (map fst d)"
    using assms base_entries_subset [of SERVICES entries]
    by (auto simp: wf_registry_def wf_object_def)
  ultimately show ?thesis
    using foldl_merge_entry_fresh [of "base_entries SERVICES entries" "[]"] by simp
qed

lemma prepare_services_Inr:
  "JNull \<notin> snd ` set entries \<Longrightarrow>
   prepare_services SERVICES entries =
     Inr \<lparr>Embed_services =
            foldl merge_entry [] (base_entries SERVICES entries @ custom_services entries),
          Embed_patterns =
            foldl pattern_entry [] (base_entries SERVICES entries @ custom_services entries)\<rparr>"
  by (simp add: prepare_services_def userServices_total)

lemma prepare_services_Inr_D:
  "prepare_services SERVICES entries = Inr static \<Longrightarrow>
   static = \<lparr>Embed_services =
            foldl merge_entry [] (base_entries SERVICES entries @ custom_services entries),
          Embed_patterns =
            foldl pattern_entry [] (base_entries SERVICES entries @ custom_services entries)\<rparr>"
  by (auto simp: prepare_services_def Let_def split: sum.splits dest: userServices_Inr)

lemma custom_services_keys:
  "key \<in> fst ` set (custom_services entries) \<longleftrightarrow>
     (\<exists>service. (key, service) \<in> set entries \<and> typeof service = ''object'' \<and> passes_check service)"
  by (force simp: custom_services_def)

lemma custom_services_empty:
  "\<forall>(key, service) \<in> set entries. typeof service = ''object'' \<longrightarrow> \<not> passes_check service \<Longrightarrow>
   custom_services entries = []"
  by (auto simp: custom_services_def filter_empty_conv)

lemma merged_regex:
  assumes "''regex'' \<in> fst ` set s \<or> key \<notin> fst ` set reg"
  shows "get (JObj (object_assign [] [case map_of reg key of None \<Rightarrow> [] | Some old \<Rightarrow> old, s]))
           ''regex'' = get (JObj s) ''regex''"
proof (cases "''regex'' \<in> fst ` set s")
  case True
  then obtain v where "map_of s ''regex'' = Some v"
    by (cases "map_of s ''regex''") (auto simp: map_of_eq_None_iff)
  then show ?thesis by (simp add: map_of_object_assign2 map_add_def)
next
  case False
  with assms have "map_of reg key = None" by (simp add: map_of_eq_None_iff)
  then show ?thesis by (simp add: map_of_object_assign2)
qed

lemma keys_pattern_entry:
  "fst ` set (pattern_entry pat (key, s)) = insert key (fst ` set pat)"
  by (simp add: pattern_entry_def dom_update)

lemma pattern_step:
  assumes keys: "fst ` set pat = fst ` set reg"
    and vals: "\<forall>k rule. map_of reg k = Some rule \<longrightarrow> map_of pat k = Some (get (JObj rule) ''regex'')"
    and cond: "''regex'' \<in> fst ` set s \<or> key \<notin> fst ` set reg"
  shows "fst ` set (pattern_entry pat (key, s)) = fst ` set (merge_entry reg (key, s))
         \<and> (\<forall>k rule. map_of (merge_entry reg (key, s)) k = Some rule \<longrightarrow>
               map_of (pattern_entry pat (key, s)) k = Some (get (JObj rule) ''regex''))"
proof (intro conjI allI impI)
  show "fst ` set (pattern_entry pat (key, s)) = fst ` set (merge_entry reg (key, s))"
    by (simp add: keys_pattern_entry keys_merge_entry keys)
next
  fix k rule
  assume rule: "map_of (merge_entry reg (key, s)) k = Some rule"
  show "map_of (pattern_entry pat (key, s)) k = Some (get (JObj rule) ''regex'')"
  proof (cases "k = key")
    case True
    from rule True have
      "rule = (if has_property reg key
               then object_assign [] [case map_of reg key of None \<Rightarrow> [] | Some old \<Rightarrow> old, s]
               else s)"
      by (simp add: map_of_merge_entry_same)
    then have "get (JObj rule) ''regex'' = get (JObj s) ''regex''"
      using merged_regex [OF cond] by (simp del: get.simps split: if_splits)
    with True show ?thesis
      by (simp add: pattern_entry_def update_conv' del: get.simps)
  next
    case False
    with rule have "map_of reg k = Some rule" by (simp add: map_of_merge_entry_other)
    with vals have "map_of pat k = Some (get (JObj rule) ''regex'')" by blast
    with False show ?thesis
      by (simp add: pattern_entry_def update_conv' del: get.simps)
  qed
qed

lemma patterns_fold_fresh:
  "distinct (map fst es) \<Longrightarrow> fst ` set es \<inter> fst ` set reg = {} \<Longrightarrow>
   fst ` set pat = fst ` set reg \<Longrightarrow>
   \<forall>k rule. map_of reg k = Some rule \<longrightarrow> map_of pat k = Some (get (JObj rule) ''regex'') \<Longrightarrow>
   fst ` set (foldl pattern_entry pat es) = fst ` set (foldl merge_entry reg es)
   \<and> (\<forall>k rule. map_of (foldl merge_entry reg es) k = Some rule \<longrightarrow>
         map_of (foldl pattern_entry pat es) k = Some (get (JObj rule) ''regex''))"
proof (induction es arbitrary: reg pat)
  case Nil
  then show ?case by simp
next
  case (Cons e es)
  obtain key s where e: "e = (key, s)" by (cases e)
  have cond: "''regex'' \<in> fst ` set s \<or> key \<notin> fst ` set reg"
    using Cons.prems(2) e by auto
  note step = pattern_step [OF Cons.prems(3) Cons.prems(4) cond]
  have "fst ` set es \<inter> fst ` set (merge_entry reg (key, s)) = {}"
    using Cons.prems(1,2) e by (auto simp: keys_merge_entry)
  moreover have "distinct (map fst es)" using Cons.prems(1) by simp
  ultimately show ?case
    using Cons.IH [of "merge_entry reg (key, s)" "pattern_entry pat (key, s)"] step e
    by simp
qed

lemma patterns_fold_custom:
  "\<forall>(key, s) \<in> set es. ''regex'' \<in> fst ` set s \<Longrightarrow>
   fst ` set pat = fst ` set reg \<Longrightarrow>
   \<forall>k rule. map_of reg k = Some rule \<longrightarrow> map_of pat k = Some (get (JObj rule) ''regex'') \<Longrightarrow>
   fst ` set (foldl pattern_entry pat es) = fst ` set (foldl merge_entry reg es)
   \<and> (\<forall>k rule. map_of (foldl merge_entry reg es) k = Some rule \<longrightarrow>
         map_of (foldl pattern_entry pat es) k = Some (get (JObj rule) ''regex''))"
proof (induction es arbitrary: reg pat)
  case Nil
  then show ?case by simp
next
  case (Cons e es)
  obtain key s where e: "e = (key, s)" by (cases e)
  have cond: "''regex'' \<in> fst ` set s \<or> key \<notin> fst ` set reg"
    using Cons.prems(1) e by auto
  note step = pattern_step [OF Cons.prems(2) Cons.prems(3) cond]
  have "\<forall>(key, s) \<in> set es. ''regex'' \<in> fst ` set s" using Cons.prems(1) by simp
  then show ?case
    using Cons.IH [of "pattern_entry pat (key, s)" "merge_entry reg (key, s)"] step e
    by simp
qed

lemma custom_services_have_regex:
  "\<forall>(key, s) \<in> set (custom_services entries). ''regex'' \<in> fst ` set s"
  by (auto simp: custom_services_def project_service_def)

lemma map_of_project_service:
  "map_of (project_service service) name =
     (if name \<in> set service_fields then Some (get service name) else None)"
  by (simp add: project_service_def service_fields_def del: get.simps)

lemma distinct_custom_services:
  "distinct (map fst entries) \<Longrightarrow> distinct (map fst (custom_services entries))"
proof -
  assume d: "distinct (map fst entries)"
  have "map fst (custom_services entries) =
          map fst (filter (\<lambda>(key, service). passes_check service)
            (filter (\<lambda>(key, value). typeof value = ''object'') entries))"
    by (simp add: custom_services_def split_def comp_def)
  with d show ?thesis by (simp add: distinct_map_filter)
qed

lemma map_of_custom_services:
  assumes "distinct (map fst entries)" and "(key, service) \<in> set entries"
    and "typeof service = ''object''" and "passes_check service"
  shows "map_of (custom_services entries) key = Some (project_service service)"
proof -
  have "(key, project_service service) \<in> set (custom_services entries)"
    using assms(2-4) by (force simp: custom_services_def)
  with distinct_custom_services [OF assms(1)] show ?thesis by simp
qed

lemma base_fold_lookup:
  assumes "distinct (map fst base)"
  shows "case map_of base key of
           None \<Rightarrow> map_of (foldl merge_entry [] base) key = None
         | Some d \<Rightarrow> \<exists>d'. map_of (foldl merge_entry [] base) key = Some d' \<and> map_of d' = map_of d"
proof (cases "map_of base key")
  case None
  then have "key \<notin> fst ` set base" by (simp add: map_of_eq_None_iff)
  then have "map_of (foldl merge_entry [] base) key = None"
    by (simp add: foldl_merge_entry_untouched)
  with None show ?thesis by simp
next
  case (Some d)
  define d' where
    "d' = (if has_property ([] :: (string \<times> props) list) key then object_assign [] [[], d] else d)"
  from foldl_merge_entry_custom [OF assms Some, of "[]"]
  have "map_of (foldl merge_entry [] base) key = Some d'"
    by (simp add: d'_def cong: if_cong)
  moreover have "map_of d' = map_of d"
    by (simp add: d'_def map_of_object_assign2)
  ultimately have "\<exists>d'. map_of (foldl merge_entry [] base) key = Some d' \<and> map_of d' = map_of d"
    by blast
  with Some show ?thesis by simp
qed

lemmas prepare_eval =
  prepare_def tool_argument_def prepare_services_def userServices_def base_entries_def
  enabledServices_def checkServiceConfig_def js_and_def project_service_def merge_entry_def
  has_property_def object_prototype_names_def object_assign_def assign_from_def
  pattern_entry_def Let_def

lemma get_substitution_literal:
  "CHR ''$'' \<notin> set r \<Longrightarrow> get_substitution matched preceding following r = r"
  by (induction matched preceding following r rule: get_substitution.induct) auto

lemma replace_remote_id_from_literal:
  "CHR ''$'' \<notin> set r \<Longrightarrow>
   replace_remote_id_from r preceding s = substitute_all remote_id_token r s"
proof (induction r preceding s rule: replace_remote_id_from.induct)
  case (1 replacement preceding)
  then show ?case by simp
next
  case (2 replacement preceding c cs)
  have nonempty: "remote_id_token \<noteq> []" by (simp add: remote_id_token_def)
  show ?case
  proof (cases "prefix remote_id_token (c # cs)")
    case True
    with 2 nonempty show ?thesis
      by (simp add: get_substitution_literal del: prefix_code)
  next
    case False
    with 2 show ?thesis by (simp del: prefix_code)
  qed
qed

lemma replace_remote_id_literal:
  "CHR ''$'' \<notin> set r \<Longrightarrow> replace_remote_id template r = substitute_all remote_id_token r template"
  by (simp add: replace_remote_id_def replace_remote_id_from_literal)










lemma wf_example_SERVICES: "wf_registry example_SERVICES"
  by (simp add: wf_registry_def wf_object_def example_SERVICES_def example_rule_def)


lemma prepare_example_custom:
  "prepare example_SERVICES (tool_argument [(''A'', JObj example_custom)]) =
     Inr \<lparr>Embed_services =
            [(''A'', [(''regex'', JRegExp id_word_regexp),
                      (''embedUrl'', JStr ''https://y/<%= remote_id %>''),
                      (''html'', JStr ''<iframe></iframe>''),
                      (''height'', JUndefined),
                      (''width'', JUndefined),
                      (''id'', JUndefined)]),
             (''B'', example_rule)],
          Embed_patterns = [(''A'', JRegExp id_word_regexp), (''B'', JRegExp id_word_regexp)]\<rparr>"
  by (simp add: prepare_eval example_SERVICES_def example_rule_def example_custom_def)

lemma prepare_example_custom_extra:
  "prepare example_SERVICES (tool_argument [(''A'', JObj example_custom_extra)]) =
     Inr \<lparr>Embed_services =
            [(''A'', [(''regex'', JRegExp id_word_regexp),
                      (''embedUrl'', JStr ''https://y/<%= remote_id %>''),
                      (''html'', JStr ''<iframe></iframe>''),
                      (''height'', JUndefined),
                      (''width'', JUndefined),
                      (''id'', JUndefined)]),
             (''B'', example_rule)],
          Embed_patterns = [(''A'', JRegExp id_word_regexp), (''B'', JRegExp id_word_regexp)]\<rparr>"
  by (simp add: prepare_eval example_SERVICES_def example_rule_def example_custom_def
      example_custom_extra_def)

section \<open>Claims\<close>

text \<open>
  C1. The specification says that the validator answers the boolean \<^verbatim>\<open>true\<close> on a
  valid rule and the boolean \<^verbatim>\<open>false\<close> on every other rule object, as the function's
  own \<^verbatim>\<open>@return {boolean}\<close> does. On the empty object, which lacks all three
  required fields, the code answers \<^verbatim>\<open>undefined\<close>: the chain of \<^verbatim>\<open>&&\<close> stops at
  the missing \<^verbatim>\<open>regex\<close> and answers it.
\<close>

theorem checkServiceConfig_empty_object: "checkServiceConfig (JObj []) = Inr JUndefined"
  by (simp add: checkServiceConfig_def js_and_def)

text \<open>
  C2. The specification says that a valid custom rule under the key of a built-in
  service is merged field by field, the fields it does not supply keeping the built-in
  values. The built-in service \<^verbatim>\<open>A\<close> has height 320 and width 580, the custom rule
  for \<^verbatim>\<open>A\<close> supplies no size, and the merged entry has \<^verbatim>\<open>undefined\<close> for both: the
  projection to the six fields binds every field, and \<^verbatim>\<open>Object.assign\<close> copies the
  \<^verbatim>\<open>undefined\<close> ones over the built-in values.
\<close>

theorem prepare_merge_loses_defaults:
  "map_of example_rule ''height'' = Some (JNum (Finite 320))
   \<and> map_of example_custom ''height'' = None
   \<and> map_sum id (\<lambda>static. map_of (Embed_services static) ''A'')
        (prepare example_SERVICES (tool_argument [(''A'', JObj example_custom)])) =
       Inr (Some [(''regex'', JRegExp id_word_regexp),
                  (''embedUrl'', JStr ''https://y/<%= remote_id %>''),
                  (''html'', JStr ''<iframe></iframe>''),
                  (''height'', JUndefined),
                  (''width'', JUndefined),
                  (''id'', JUndefined)])"
  by (simp add: prepare_example_custom) (simp add: example_rule_def example_custom_def)

text \<open>
  C3, as the specification states it, fails twice. The template of its example,
  \<^verbatim>\<open>https://x/<id>\<close>, holds no placeholder of the code, whose token is
  \<^verbatim>\<open><%= remote_id %>\<close>, so the embed is the template unchanged; and an id is used as
  a replacement pattern, so the id \<^verbatim>\<open>$&\<close> puts the token back.
\<close>

theorem resolve_spec_example_counterexample:
  "resolve [(''x'', spec_example_rule)] ''x'' ''http://a?id=abc123'' =
     Inr [(''service'', JStr ''x''), (''source'', JStr ''http://a?id=abc123''),
          (''embed'', JStr ''https://x/<id>''), (''width'', JUndefined), (''height'', JUndefined)]
   \<and> ''https://x/<id>'' \<noteq> ''https://x/abc123''
   \<and> resolve [(''x'', dollar_rule)] ''x'' ''http://a?id=abc123'' =
     Inr [(''service'', JStr ''x''), (''source'', JStr ''http://a?id=abc123''),
          (''embed'', JStr ''https://x/<%= remote_id %>''),
          (''width'', JUndefined), (''height'', JUndefined)]"
  by (simp add: resolve_def call_id_def spec_example_rule_def dollar_rule_def id_word_regexp_def
      is_word_char_def replace_remote_id_def remote_id_token_def)

text \<open>
  C3, amended. For a registry entry under the dispatched key whose pattern matches the
  URL and whose template is a string, the id is what the entry's \<^verbatim>\<open>id\<close> function
  answers on the capture groups, or the first capture group when the entry has none;
  when the id holds no dollar sign, the embed is the template with every occurrence of
  \<^verbatim>\<open><%= remote_id %>\<close> replaced by the id, and the descriptor holds the key, the URL,
  the embed and the entry's width and height. For the pattern \<^verbatim>\<open>/id=(\w+)/\<close>, the
  template \<^verbatim>\<open>https://x/<%= remote_id %>\<close> and the URL \<^verbatim>\<open>http://a?id=abc123\<close> the
  embed is \<^verbatim>\<open>https://x/abc123\<close>.
\<close>

theorem resolve_descriptor:
  assumes "map_of registry service = Some rule"
    and "get (JObj rule) ''regex'' = JRegExp rx"
    and "rx_exec rx url = Some m"
    and "get (JObj rule) ''embedUrl'' = JStr template"
    and "(get (JObj rule) ''id'' = JUndefined \<and> rid = default_id (drop 1 m))
         \<or> (\<exists>f. get (JObj rule) ''id'' = JFunc f \<and> f (drop 1 m) = Some rid)"
    and "CHR ''$'' \<notin> set rid"
  shows "resolve registry service url =
           Inr [(''service'', JStr service), (''source'', JStr url),
                (''embed'', JStr (substitute_all remote_id_token rid template)),
                (''width'', get (JObj rule) ''width''),
                (''height'', get (JObj rule) ''height'')]"
  using assms
  by (auto simp: resolve_def call_id_def Let_def replace_remote_id_literal simp del: get.simps)

theorem resolve_descriptor_witness:
  "resolve [(''x'', example_rule)] ''x'' ''http://a?id=abc123'' =
     Inr [(''service'', JStr ''x''), (''source'', JStr ''http://a?id=abc123''),
          (''embed'', JStr ''https://x/abc123''),
          (''width'', JNum (Finite 580)), (''height'', JNum (Finite 320))]"
proof -
  have 1: "map_of [(''x'', example_rule)] ''x'' = Some example_rule" by simp
  have 2: "get (JObj example_rule) ''regex'' = JRegExp id_word_regexp"
    by (simp add: example_rule_def)
  have 3: "rx_exec id_word_regexp ''http://a?id=abc123'' = Some [Some ''id=abc123'', Some ''abc123'']"
    by (simp add: id_word_regexp_def is_word_char_def)
  have 4: "get (JObj example_rule) ''embedUrl'' = JStr ''https://x/<%= remote_id %>''"
    by (simp add: example_rule_def)
  have 5: "(get (JObj example_rule) ''id'' = JUndefined
            \<and> ''abc123'' = default_id (drop 1 [Some ''id=abc123'', Some ''abc123'']))
         \<or> (\<exists>f. get (JObj example_rule) ''id'' = JFunc f
              \<and> f (drop 1 [Some ''id=abc123'', Some ''abc123'']) = Some ''abc123'')"
    by (simp add: example_rule_def)
  have 6: "CHR ''$'' \<notin> set ''abc123''" by simp
  have 7: "substitute_all remote_id_token ''abc123'' ''https://x/<%= remote_id %>'' = ''https://x/abc123''"
    by (simp add: remote_id_token_def)
  have 8: "get (JObj example_rule) ''width'' = JNum (Finite 580)"
    "get (JObj example_rule) ''height'' = JNum (Finite 320)"
    by (simp_all add: example_rule_def)
  from resolve_descriptor [OF 1 2 3 4 5 6] show ?thesis
    by (simp only: 7 8)
qed

text \<open>
  C4. The entries of the user's \<^verbatim>\<open>services\<close> whose value is exactly \<^verbatim>\<open>true\<close> are an
  allow-list. For a key that no valid custom rule is bound to, the registry has no
  entry when some service is enabled and this key is not, and the entry of the
  built-in table otherwise. With \<^verbatim>\<open>{A: true}\<close> the registry keeps \<^verbatim>\<open>A\<close> and drops
  \<^verbatim>\<open>B\<close>.
\<close>

theorem prepare_enable_list:
  assumes "wf_registry SERVICES"
    and "JNull \<notin> snd ` set entries"
    and "\<forall>service. (key, service) \<in> set entries \<longrightarrow> typeof service = ''object'' \<longrightarrow>
           \<not> passes_check service"
    and "wf_object entries"
  shows "\<exists>static. prepare SERVICES (tool_argument entries) = Inr static
           \<and> map_of (Embed_services static) key =
               (if (\<exists>k. (k, JBool True) \<in> set entries) \<and> (key, JBool True) \<notin> set entries
                then None else map_of SERVICES key)"
proof -
  let ?base = "base_entries SERVICES entries"
  let ?custom = "custom_services entries"
  have untouched: "key \<notin> fst ` set ?custom"
    using assms(3) by (auto simp: custom_services_keys)
  have "map_of (foldl merge_entry [] (?base @ ?custom)) key = map_of ?base key"
    by (simp add: foldl_merge_entry_base [OF assms(1)] foldl_merge_entry_untouched [OF untouched])
  then show ?thesis
    by (simp add: prepare_tool_argument prepare_services_Inr [OF assms(2)] map_of_base_entries)
qed

theorem prepare_enable_list_witness:
  "(\<exists>static. prepare example_SERVICES (tool_argument [(''A'', JBool True)]) = Inr static
      \<and> map_of (Embed_services static) ''A'' = Some example_rule)
   \<and> (\<exists>static. prepare example_SERVICES (tool_argument [(''A'', JBool True)]) = Inr static
      \<and> map_of (Embed_services static) ''B'' = None)"
proof -
  have no_null: "JNull \<notin> snd ` set [(''A'', JBool True)]" by simp
  have a: "\<forall>service. (''A'', service) \<in> set [(''A'', JBool True)] \<longrightarrow>
             typeof service = ''object'' \<longrightarrow> \<not> passes_check service"
    by simp
  have b: "\<forall>service. (''B'', service) \<in> set [(''A'', JBool True)] \<longrightarrow>
             typeof service = ''object'' \<longrightarrow> \<not> passes_check service"
    by simp
  have wf: "wf_object [(''A'', JBool True)]" by (simp add: wf_object_def)
  from prepare_enable_list [OF wf_example_SERVICES no_null a wf]
       prepare_enable_list [OF wf_example_SERVICES no_null b wf]
  show ?thesis by (simp add: example_SERVICES_def)
qed

text \<open>
  C5, as the specification states it, fails: with \<^verbatim>\<open>{A: true, custom: {}}\<close> the only
  object-valued entry is invalid, and the registry is the built-in table restricted
  to \<^verbatim>\<open>A\<close>, not the built-in table.
\<close>

theorem prepare_invalid_custom_counterexample:
  "prepare example_SERVICES (tool_argument [(''A'', JBool True), (''custom'', JObj [])]) =
     Inr \<lparr>Embed_services = [(''A'', example_rule)],
          Embed_patterns = [(''A'', JRegExp id_word_regexp)]\<rparr>
   \<and> [(''A'', example_rule)] \<noteq> example_SERVICES"
  by (simp add: prepare_eval example_SERVICES_def example_rule_def)

text \<open>
  C5, amended. When the validator answers a falsy value on every entry of type object
  (which leaves out \<^verbatim>\<open>null\<close>, where it raises), \<^verbatim>\<open>prepare\<close> does not raise and the
  registry is the base registry: the built-in table restricted to the enabled keys
  when some entry is exactly \<^verbatim>\<open>true\<close>, the whole built-in table otherwise. Nothing of
  an invalid custom rule is merged.
\<close>

theorem prepare_invalid_custom_dropped:
  assumes "wf_registry SERVICES"
    and "\<forall>(key, service) \<in> set entries. typeof service = ''object'' \<longrightarrow>
           (\<exists>v. checkServiceConfig service = Inr v \<and> \<not> truthy v)"
  shows "\<exists>static. prepare SERVICES (tool_argument entries) = Inr static
           \<and> Embed_services static =
               (if \<exists>k. (k, JBool True) \<in> set entries
                then filter (\<lambda>(key, rule). (key, JBool True) \<in> set entries) SERVICES
                else SERVICES)"
proof -
  have no_null: "JNull \<notin> snd ` set entries"
  proof
    assume "JNull \<in> snd ` set entries"
    then obtain key where "(key, JNull) \<in> set entries" by auto
    with assms(2) have "\<exists>v. checkServiceConfig JNull = Inr v \<and> \<not> truthy v" by fastforce
    then show False by (simp add: checkServiceConfig_def)
  qed
  have "\<forall>(key, service) \<in> set entries. typeof service = ''object'' \<longrightarrow> \<not> passes_check service"
    using assms(2) by (fastforce simp: passes_check_def)
  then have none: "custom_services entries = []" by (rule custom_services_empty)
  have base: "base_entries SERVICES entries =
          (if \<exists>k. (k, JBool True) \<in> set entries
           then filter (\<lambda>(key, rule). (key, JBool True) \<in> set entries) SERVICES
           else SERVICES)"
    by (simp add: base_entries_def enabledServices_empty_iff set_enabledServices)
  have "prepare SERVICES (tool_argument entries) =
          Inr \<lparr>Embed_services = base_entries SERVICES entries,
               Embed_patterns = foldl pattern_entry [] (base_entries SERVICES entries)\<rparr>"
    by (simp add: prepare_tool_argument prepare_services_Inr [OF no_null] none
        foldl_merge_entry_base [OF assms(1)])
  with base show ?thesis by simp
qed

theorem prepare_invalid_custom_dropped_witness:
  "\<exists>static. prepare example_SERVICES (tool_argument [(''custom'', JObj [])]) = Inr static
     \<and> Embed_services static = example_SERVICES"
proof -
  have "\<forall>(key, service) \<in> set [(''custom'', JObj [])]. typeof service = ''object'' \<longrightarrow>
          (\<exists>v. checkServiceConfig service = Inr v \<and> \<not> truthy v)"
    by (simp add: checkServiceConfig_def js_and_def)
  from prepare_invalid_custom_dropped [OF wf_example_SERVICES this]
  show ?thesis by simp
qed







text \<open>
  C8. After \<^verbatim>\<open>prepare\<close>, the \<^verbatim>\<open>patterns\<close> of \<^verbatim>\<open>pasteConfig\<close> is the pattern table,
  the pattern table has the keys of the registry, and it maps each key to the
  \<^verbatim>\<open>regex\<close> of that key's registry entry, merged entries included.
\<close>

theorem pasteConfig_patterns_project_registry:
  assumes "wf_object SERVICES" and "wf_object entries"
    and "prepare SERVICES (tool_argument entries) = Inr static"
  shows "get (JObj (pasteConfig static)) ''patterns'' = JObj (Embed_patterns static)
         \<and> fst ` set (Embed_patterns static) = fst ` set (Embed_services static)
         \<and> (\<forall>key rule. map_of (Embed_services static) key = Some rule \<longrightarrow>
               map_of (Embed_patterns static) key = Some (get (JObj rule) ''regex''))"
proof -
  from assms(3) have "prepare_services SERVICES entries = Inr static"
    by (simp add: prepare_tool_argument)
  then have static: "static =
      \<lparr>Embed_services =
         foldl merge_entry [] (base_entries SERVICES entries @ custom_services entries),
       Embed_patterns =
         foldl pattern_entry [] (base_entries SERVICES entries @ custom_services entries)\<rparr>"
    by (rule prepare_services_Inr_D)
  let ?base = "base_entries SERVICES entries"
  have "distinct (map fst ?base)"
    using assms(1) by (simp add: wf_object_def distinct_base_entries)
  then have base: "fst ` set (foldl pattern_entry [] ?base) = fst ` set (foldl merge_entry [] ?base)
      \<and> (\<forall>k rule. map_of (foldl merge_entry [] ?base) k = Some rule \<longrightarrow>
            map_of (foldl pattern_entry [] ?base) k = Some (get (JObj rule) ''regex''))"
    by (intro patterns_fold_fresh) simp_all
  have "fst ` set (foldl pattern_entry (foldl pattern_entry [] ?base) (custom_services entries))
          = fst ` set (foldl merge_entry (foldl merge_entry [] ?base) (custom_services entries))
      \<and> (\<forall>k rule. map_of (foldl merge_entry (foldl merge_entry [] ?base) (custom_services entries)) k
                     = Some rule \<longrightarrow>
            map_of (foldl pattern_entry (foldl pattern_entry [] ?base) (custom_services entries)) k
              = Some (get (JObj rule) ''regex''))"
    using base by (intro patterns_fold_custom custom_services_have_regex) blast+
  then show ?thesis
    by (simp add: static pasteConfig_def del: get.simps) (simp)
qed

theorem pasteConfig_patterns_project_registry_witness:
  "\<exists>static. prepare example_SERVICES (tool_argument [(''A'', JObj example_custom)]) = Inr static
     \<and> get (JObj (pasteConfig static)) ''patterns'' = JObj (Embed_patterns static)
     \<and> fst ` set (Embed_patterns static) = fst ` set (Embed_services static)
     \<and> map_of (Embed_patterns static) ''A'' = Some (JRegExp id_word_regexp)
     \<and> map_of (Embed_patterns static) ''B'' = Some (JRegExp id_word_regexp)"
proof -
  have wf: "wf_object example_SERVICES"
    using wf_example_SERVICES by (simp add: wf_registry_def)
  have wf': "wf_object [(''A'', JObj example_custom)]" by (simp add: wf_object_def)
  from pasteConfig_patterns_project_registry [OF wf wf' prepare_example_custom]
  show ?thesis
    by (simp add: prepare_example_custom pasteConfig_def)
qed

text \<open>
  C9. A user configuration whose \<^verbatim>\<open>services\<close> object binds some key to \<^verbatim>\<open>null\<close>
  makes \<^verbatim>\<open>prepare\<close> raise a TypeError: \<^verbatim>\<open>typeof null\<close> is \<^verbatim>\<open>'object'\<close>, so the
  entry reaches the validator, which destructures it.
\<close>

theorem prepare_null_service_raises:
  "(key, JNull) \<in> set entries \<Longrightarrow> prepare SERVICES (tool_argument entries) = Inl TypeError"
  by (simp add: prepare_tool_argument prepare_services_def userServices_null)

theorem prepare_null_service_raises_witness:
  "(''custom'', JNull) \<in> set [(''custom'', JNull)]
   \<and> prepare [] (tool_argument [(''custom'', JNull)]) = Inl TypeError"
  using prepare_null_service_raises [of "''custom''" "[(''custom'', JNull)]" "[]"] by simp

text \<open>
  C10. A valid custom rule reaches the registry through its six fields only. The
  registry entry under its key binds each of \<^verbatim>\<open>regex\<close>, \<^verbatim>\<open>embedUrl\<close>, \<^verbatim>\<open>html\<close>,
  \<^verbatim>\<open>height\<close>, \<^verbatim>\<open>width\<close> and \<^verbatim>\<open>id\<close> to what the rule has there; any other name is
  bound as in the base entry of that key, and to nothing when there is none, whatever
  the rule holds under it.
\<close>

theorem custom_service_projected:
  assumes "wf_object SERVICES" and "wf_object entries"
    and "(key, service) \<in> set entries"
    and "typeof service = ''object''"
    and "checkServiceConfig service = Inr (JBool True)"
    and "prepare SERVICES (tool_argument entries) = Inr static"
  shows "\<exists>entry. map_of (Embed_services static) key = Some entry
           \<and> (\<forall>name \<in> set service_fields. map_of entry name = Some (get service name))
           \<and> (\<forall>name. name \<notin> set service_fields \<longrightarrow>
                 map_of entry name =
                   (case map_of (base_entries SERVICES entries) key of
                      None \<Rightarrow> None
                    | Some d \<Rightarrow> map_of d name))"
proof -
  let ?base = "base_entries SERVICES entries"
  let ?acc = "foldl merge_entry [] ?base"
  let ?custom = "custom_services entries"
  let ?P = "project_service service"
  let ?old = "case map_of ?acc key of None \<Rightarrow> [] | Some old \<Rightarrow> old"
  let ?entry = "if has_property ?acc key then object_assign [] [?old, ?P] else ?P"
  from assms(6) have "prepare_services SERVICES entries = Inr static"
    by (simp add: prepare_tool_argument)
  then have static: "static =
      \<lparr>Embed_services = foldl merge_entry [] (?base @ ?custom),
       Embed_patterns = foldl pattern_entry [] (?base @ ?custom)\<rparr>"
    by (rule prepare_services_Inr_D)
  have passes: "passes_check service"
    using assms(5) by (simp add: passes_check_true)
  have dist: "distinct (map fst entries)" using assms(2) by (simp add: wf_object_def)
  have custom: "map_of ?custom key = Some ?P"
    using dist assms(3,4) passes by (rule map_of_custom_services)
  have entry: "map_of (Embed_services static) key = Some ?entry"
    using foldl_merge_entry_custom [OF distinct_custom_services [OF dist] custom, of ?acc]
    by (simp add: static)
  have dbase: "distinct (map fst ?base)"
    using assms(1) by (simp add: wf_object_def distinct_base_entries)
  note base = base_fold_lookup [OF dbase, of key]
  have old: "map_of ?old name = (case map_of ?base key of None \<Rightarrow> None | Some d \<Rightarrow> map_of d name)"
    for name
    using base by (auto split: option.splits)
  have fields: "\<forall>name \<in> set service_fields. map_of ?entry name = Some (get service name)"
    by (simp add: map_of_object_assign2 map_add_def map_of_project_service del: get.simps)
  have others: "map_of ?entry name =
          (case map_of ?base key of None \<Rightarrow> None | Some d \<Rightarrow> map_of d name)"
    if "name \<notin> set service_fields" for name
  proof (cases "has_property ?acc key")
    case True
    then show ?thesis
      using that old [of name]
      by (simp add: map_of_object_assign2 map_add_def map_of_project_service del: get.simps)
  next
    case False
    then have "key \<notin> fst ` set ?acc" by (simp add: has_property_def)
    then have "key \<notin> fst ` set ?base" by (simp add: keys_foldl_merge_entry)
    then have "map_of ?base key = None" by (simp add: map_of_eq_None_iff)
    with False that show ?thesis
      by (simp add: map_of_project_service del: get.simps)
  qed
  from entry fields others show ?thesis by blast
qed

theorem custom_service_projected_witness:
  "\<exists>static entry.
      prepare example_SERVICES (tool_argument [(''A'', JObj example_custom_extra)]) = Inr static
      \<and> map_of (Embed_services static) ''A'' = Some entry
      \<and> get (JObj example_custom_extra) ''extra'' = JStr ''user''
      \<and> map_of entry ''extra'' = None
      \<and> map_of entry ''embedUrl'' = Some (JStr ''https://y/<%= remote_id %>'')"
proof -
  let ?entries = "[(''A'', JObj example_custom_extra)]"
  let ?static =
    "\<lparr>Embed_services =
        [(''A'', [(''regex'', JRegExp id_word_regexp),
                  (''embedUrl'', JStr ''https://y/<%= remote_id %>''),
                  (''html'', JStr ''<iframe></iframe>''),
                  (''height'', JUndefined),
                  (''width'', JUndefined),
                  (''id'', JUndefined)]),
         (''B'', example_rule)],
      Embed_patterns = [(''A'', JRegExp id_word_regexp), (''B'', JRegExp id_word_regexp)]\<rparr>"
  have 1: "wf_object example_SERVICES"
    using wf_example_SERVICES by (simp add: wf_registry_def)
  have 2: "wf_object ?entries" by (simp add: wf_object_def)
  have 3: "(''A'', JObj example_custom_extra) \<in> set ?entries" by simp
  have 4: "typeof (JObj example_custom_extra) = ''object''" by simp
  have 5: "checkServiceConfig (JObj example_custom_extra) = Inr (JBool True)"
    by (simp add: checkServiceConfig_def js_and_def example_custom_extra_def example_custom_def)
  have 6: "prepare example_SERVICES (tool_argument ?entries) = Inr ?static"
    by (rule prepare_example_custom_extra)
  from custom_service_projected [OF 1 2 3 4 5 6]
  obtain entry where
    entry: "map_of (Embed_services ?static) ''A'' = Some entry"
    and fields: "\<forall>name \<in> set service_fields.
                   map_of entry name = Some (get (JObj example_custom_extra) name)"
    and others: "\<forall>name. name \<notin> set service_fields \<longrightarrow>
                   map_of entry name =
                     (case map_of (base_entries example_SERVICES ?entries) ''A'' of
                        None \<Rightarrow> None
                      | Some d \<Rightarrow> map_of d name)"
    by blast
  have "''extra'' \<notin> set service_fields" by (simp add: service_fields_def)
  with others have "map_of entry ''extra'' =
      (case map_of (base_entries example_SERVICES ?entries) ''A'' of
         None \<Rightarrow> None
       | Some d \<Rightarrow> map_of d ''extra'')"
    by blast
  then have extra: "map_of entry ''extra'' = None"
    by (simp add: base_entries_def enabledServices_def example_SERVICES_def example_rule_def)
  have "''embedUrl'' \<in> set service_fields" by (simp add: service_fields_def)
  with fields have "map_of entry ''embedUrl'' = Some (get (JObj example_custom_extra) ''embedUrl'')"
    by blast
  then have embedUrl: "map_of entry ''embedUrl'' = Some (JStr ''https://y/<%= remote_id %>'')"
    by (simp add: example_custom_extra_def example_custom_def)
  have user: "get (JObj example_custom_extra) ''extra'' = JStr ''user''"
    by (simp add: example_custom_extra_def example_custom_def)
  from 6 entry user extra embedUrl show ?thesis by blast
qed

end
